theory Spec2Isabelle
  imports Main "HOL-Library.AList" "HOL-Library.List_Lexorder" "HOL-Library.Char_ord"
begin

section \<open>Data model of the dashboard store (database.py)\<close>

text \<open>
  Python dictionaries keep insertion order, so a dictionary is an association list:
  \<open>d[k] = v\<close> is \<^const>\<open>AList.update\<close> (replace in place, else append),
  \<open>del d[k]\<close> is \<^const>\<open>AList.delete\<close>, \<open>d.get(k)\<close> is \<^const>\<open>map_of\<close>
  and \<open>k in d\<close> is \<open>map_of d k \<noteq> None\<close>.

  A naive \<open>datetime\<close> is the number of microseconds on the wall clock; the store writes it
  with \<open>isoformat()\<close> and reads it back with \<open>fromisoformat()\<close>, which returns the same value,
  so the log keeps the datetime itself. Every \<open>datetime.now()\<close> of the source is an
  argument of the model. The microseconds count from 1970-01-01 00:00; a datetime lies
  between 0001-01-01 00:00:00 and 9999-12-31 23:59:59.999999, \<open>timedelta(days=n)\<close> raises
  \<open>OverflowError\<close> when \<open>n\<close> exceeds 999999999 in magnitude, and so does a subtraction
  whose result leaves the range of datetimes.

  The state is the dictionary \<open>self.data\<close>. \<open>_save_data\<close>, which every mutating operation
  calls last to rewrite the snapshot file from it, leaves it unchanged; the file and the
  errors of writing it are outside the model.
\<close>

type_synonym datetime = int

datatype py_error = OverflowError

definition datetime_min :: datetime where
  "datetime_min = - 719162 * 86400000000"

definition datetime_max :: datetime where
  "datetime_max = 2932897 * 86400000000 - 1"

definition timedelta_days :: "int \<Rightarrow> py_error + int" where
  "timedelta_days n =
     (if \<bar>n\<bar> > 999999999 then Inl OverflowError else Inr (n * 86400000000))"

text \<open>\<open>t - delta\<close> on a datetime and a timedelta.\<close>

definition datetime_minus :: "datetime \<Rightarrow> int \<Rightarrow> py_error + datetime" where
  "datetime_minus t delta =
     (if t - delta < datetime_min \<or> datetime_max < t - delta then Inl OverflowError
      else Inr (t - delta))"

definition timedelta_hours :: "int \<Rightarrow> int" where
  "timedelta_hours n = n * 3600000000"

record token_stats =
  total_requests :: int
  total_tokens :: int
  models_used :: "(string \<times> int) list"
  ip_addresses :: "string list"
  countries :: "(string \<times> int) list"

record token =
  key :: string
  created_at :: datetime
  last_used :: "datetime option"
  is_active :: bool
  user_info :: "(string \<times> string) list"
  usage_stats :: token_stats

text \<open>An entry of \<open>usage_logs\<close>; its \<open>"tokens"\<close> field is \<open>log_tokens\<close> here.\<close>

record usage_log =
  timestamp :: datetime
  token_id :: string
  model :: string
  log_tokens :: int
  ip :: string
  country :: "string option"

text \<open>The \<open>"stats"\<close> block; its first two fields carry the prefix \<open>stats_\<close>.\<close>

record global_stats =
  stats_total_requests :: int
  stats_total_tokens :: int
  active_tokens :: int

record db =
  tokens :: "(string \<times> token) list"
  usage_logs :: "usage_log list"
  stats :: global_stats

definition create_empty_db :: db where
  "create_empty_db =
     \<lparr>tokens = [], usage_logs = [],
      stats = \<lparr>stats_total_requests = 0, stats_total_tokens = 0, active_tokens = 0\<rparr>\<rparr>"

text \<open>
  \<open>hashlib.sha256(token.encode()).hexdigest()[:16]\<close>: the hex digest is the library's and
  is the parameter \<open>sha256_hex\<close>; the slice is \<^const>\<open>take\<close>.
\<close>

definition derive_token_id :: "(string \<Rightarrow> string) \<Rightarrow> string \<Rightarrow> string" where
  "derive_token_id sha256_hex token = take 16 (sha256_hex token)"

subsection \<open>Token store\<close>

text \<open>
  \<open>generate_token\<close>: \<open>rnd\<close> is what \<open>secrets.token_urlsafe(32)\<close> returned and \<open>now\<close> the
  clock; \<open>user_info or {}\<close> turns \<open>None\<close> into the empty dictionary.
\<close>

definition generate_token ::
  "(string \<Rightarrow> string) \<Rightarrow> string \<Rightarrow> datetime \<Rightarrow> (string \<times> string) list option \<Rightarrow> db
     \<Rightarrow> string \<times> db" where
  "generate_token sha256_hex rnd now info d =
     (let tok = ''lma_'' @ rnd;
          tid = derive_token_id sha256_hex tok;
          rec = \<lparr>key = tok, created_at = now, last_used = None, is_active = True,
                 user_info = (case info of None \<Rightarrow> [] | Some ui \<Rightarrow> ui),
                 usage_stats = \<lparr>total_requests = 0, total_tokens = 0, models_used = [],
                                ip_addresses = [], countries = []\<rparr>\<rparr>
      in (tok, d\<lparr>tokens := AList.update tid rec (tokens d),
                 stats := (stats d)\<lparr>active_tokens := active_tokens (stats d) + 1\<rparr>\<rparr>))"

definition get_token_info :: "(string \<Rightarrow> string) \<Rightarrow> string \<Rightarrow> db \<Rightarrow> token option" where
  "get_token_info sha256_hex tok d = map_of (tokens d) (derive_token_id sha256_hex tok)"

definition validate_token :: "(string \<Rightarrow> string) \<Rightarrow> string \<Rightarrow> db \<Rightarrow> bool" where
  "validate_token sha256_hex tok d =
     (case get_token_info sha256_hex tok d of None \<Rightarrow> False | Some t \<Rightarrow> is_active t)"

definition revoke_token :: "string \<Rightarrow> db \<Rightarrow> bool \<times> db" where
  "revoke_token tid d =
     (case map_of (tokens d) tid of
        None \<Rightarrow> (False, d)
      | Some t \<Rightarrow>
          (True,
           d\<lparr>tokens := AList.update tid (t\<lparr>is_active := False\<rparr>) (tokens d),
             stats := (if is_active t
                       then (stats d)\<lparr>active_tokens := active_tokens (stats d) - 1\<rparr>
                       else stats d)\<rparr>))"

definition activate_token :: "string \<Rightarrow> db \<Rightarrow> bool \<times> db" where
  "activate_token tid d =
     (case map_of (tokens d) tid of
        None \<Rightarrow> (False, d)
      | Some t \<Rightarrow>
          (True,
           d\<lparr>tokens := AList.update tid (t\<lparr>is_active := True\<rparr>) (tokens d),
             stats := (if \<not> is_active t
                       then (stats d)\<lparr>active_tokens := active_tokens (stats d) + 1\<rparr>
                       else stats d)\<rparr>))"

definition delete_token :: "string \<Rightarrow> db \<Rightarrow> bool \<times> db" where
  "delete_token tid d =
     (case map_of (tokens d) tid of
        None \<Rightarrow> (False, d)
      | Some t \<Rightarrow>
          (True,
           d\<lparr>tokens := AList.delete tid (tokens d),
             stats := (if is_active t
                       then (stats d)\<lparr>active_tokens := active_tokens (stats d) - 1\<rparr>
                       else stats d)\<rparr>))"

text \<open>The number of token records whose \<open>is_active\<close> field is true.\<close>

definition active_count :: "db \<Rightarrow> nat" where
  "active_count d = length (filter (\<lambda>kt. is_active (snd kt)) (tokens d))"

text \<open>Whether a token id names a record that is active (a missing record is not).\<close>

definition active_of :: "db \<Rightarrow> string \<Rightarrow> bool" where
  "active_of d tid = (case map_of (tokens d) tid of None \<Rightarrow> False | Some t \<Rightarrow> is_active t)"

text \<open>Sequences of administrative operations, with what the environment supplied to each.\<close>

datatype admin_op =
    Generate string datetime "(string \<times> string) list option"
  | Revoke string
  | Activate string
  | Delete string

fun apply_op :: "(string \<Rightarrow> string) \<Rightarrow> admin_op \<Rightarrow> db \<Rightarrow> db" where
  "apply_op sha (Generate rnd now info) d = snd (generate_token sha rnd now info d)"
| "apply_op sha (Revoke tid) d = snd (revoke_token tid d)"
| "apply_op sha (Activate tid) d = snd (activate_token tid d)"
| "apply_op sha (Delete tid) d = snd (delete_token tid d)"

fun run_ops :: "(string \<Rightarrow> string) \<Rightarrow> admin_op list \<Rightarrow> db \<Rightarrow> db" where
  "run_ops sha [] d = d"
| "run_ops sha (x # xs) d = run_ops sha xs (apply_op sha x d)"

text \<open>The token id an operation is about.\<close>

fun target :: "(string \<Rightarrow> string) \<Rightarrow> admin_op \<Rightarrow> string" where
  "target sha (Generate rnd now info) = derive_token_id sha (''lma_'' @ rnd)"
| "target sha (Revoke tid) = tid"
| "target sha (Activate tid) = tid"
| "target sha (Delete tid) = tid"

text \<open>
  The generated secrets are random: every \<open>Generate\<close> of the sequence derives a token id
  that is not a key of the store at that moment.
\<close>

fun fresh_ids :: "(string \<Rightarrow> string) \<Rightarrow> admin_op list \<Rightarrow> db \<Rightarrow> bool" where
  "fresh_ids sha [] d = True"
| "fresh_ids sha (x # xs) d =
     ((case x of Generate rnd now info \<Rightarrow> map_of (tokens d) (target sha x) = None | _ \<Rightarrow> True)
      \<and> fresh_ids sha xs (apply_op sha x d))"

subsection \<open>Usage recorder\<close>

text \<open>
  What the request to the geolocation service did: it raised, or it answered with a status
  code and a body whose \<open>"country"\<close> field is absent (\<open>None\<close>), \<open>null\<close> (\<open>Some None\<close>) or a
  string.
\<close>

datatype geo_reply = Geo_raises | Geo_response int "string option option"

definition get_country_from_ip :: "(string \<Rightarrow> geo_reply) \<Rightarrow> string \<Rightarrow> string option" where
  "get_country_from_ip geo ip_addr =
     (if ip_addr \<in> set [''127.0.0.1'', ''localhost'', ''::1''] then Some ''Local''
      else (case geo ip_addr of
              Geo_raises \<Rightarrow> Some ''Unknown''
            | Geo_response code body \<Rightarrow>
                if code = 200
                then (case body of None \<Rightarrow> Some ''Unknown'' | Some c \<Rightarrow> c)
                else Some ''Unknown''))"

text \<open>\<open>if k not in d: d[k] = 0\<close> followed by \<open>d[k] += 1\<close>.\<close>

definition bump :: "string \<Rightarrow> (string \<times> int) list \<Rightarrow> (string \<times> int) list" where
  "bump k d =
     (case map_of d k of
        None \<Rightarrow> AList.update k (0 + 1) (AList.update k 0 d)
      | Some c \<Rightarrow> AList.update k (c + 1) d)"

text \<open>The IP list of a token after one more event: append if new, then \<open>pop(0)\<close> over 100.\<close>

definition track_ip :: "string \<Rightarrow> string list \<Rightarrow> string list" where
  "track_ip ip_addr ips =
     (if ip_addr \<notin> set ips
      then (let ips1 = ips @ [ip_addr] in if length ips1 > 100 then tl ips1 else ips1)
      else ips)"

text \<open>The usage log after one more entry: append, then keep \<open>[-10000:]\<close> over 10000.\<close>

definition append_log :: "usage_log \<Rightarrow> usage_log list \<Rightarrow> usage_log list" where
  "append_log e logs =
     (let logs1 = logs @ [e]
      in if length logs1 > 10000 then drop (length logs1 - 10000) logs1 else logs1)"

text \<open>
  \<open>log_usage\<close> reads the clock twice (\<open>last_used\<close>, then the log entry's timestamp) and asks
  the geolocation service once; \<open>if country:\<close> is false for \<open>None\<close> and for the empty string.
\<close>

definition log_usage ::
  "(string \<Rightarrow> string) \<Rightarrow> (string \<Rightarrow> geo_reply) \<Rightarrow> datetime \<Rightarrow> datetime
     \<Rightarrow> string \<Rightarrow> string \<Rightarrow> int \<Rightarrow> string \<Rightarrow> db \<Rightarrow> db" where
  "log_usage sha256_hex geo now_used now_logged tok mdl tokens_used ip_addr d =
     (let tid = derive_token_id sha256_hex tok
      in case map_of (tokens d) tid of
           None \<Rightarrow> d
         | Some token_data \<Rightarrow>
             (let ctry = get_country_from_ip geo ip_addr;
                  us = usage_stats token_data;
                  us1 = us\<lparr>total_requests := total_requests us + 1,
                           total_tokens := total_tokens us + tokens_used\<rparr>;
                  us2 = us1\<lparr>models_used := bump mdl (models_used us1)\<rparr>;
                  us3 = us2\<lparr>ip_addresses := track_ip ip_addr (ip_addresses us2)\<rparr>;
                  us4 = (case ctry of
                           None \<Rightarrow> us3
                         | Some c \<Rightarrow>
                             if c \<noteq> [] then us3\<lparr>countries := bump c (countries us3)\<rparr>
                             else us3);
                  token_data' = token_data\<lparr>last_used := Some now_used, usage_stats := us4\<rparr>;
                  e = \<lparr>timestamp = now_logged, token_id = tid, model = mdl,
                       log_tokens = tokens_used, ip = ip_addr, country = ctry\<rparr>
              in d\<lparr>tokens := AList.update tid token_data' (tokens d),
                   usage_logs := append_log e (usage_logs d),
                   stats := (stats d)
                     \<lparr>stats_total_requests := stats_total_requests (stats d) + 1,
                      stats_total_tokens := stats_total_tokens (stats d) + tokens_used\<rparr>\<rparr>))"

text \<open>One call of \<open>log_usage\<close> with everything the environment supplied to it.\<close>

record usage_event =
  ev_secret :: string
  ev_model :: string
  ev_tokens_used :: int
  ev_ip :: string
  ev_geo :: "string \<Rightarrow> geo_reply"
  ev_now_used :: datetime
  ev_now_logged :: datetime

definition record_event :: "(string \<Rightarrow> string) \<Rightarrow> usage_event \<Rightarrow> db \<Rightarrow> db" where
  "record_event sha ev d =
     log_usage sha (ev_geo ev) (ev_now_used ev) (ev_now_logged ev)
       (ev_secret ev) (ev_model ev) (ev_tokens_used ev) (ev_ip ev) d"

fun record_all :: "(string \<Rightarrow> string) \<Rightarrow> usage_event list \<Rightarrow> db \<Rightarrow> db" where
  "record_all sha [] d = d"
| "record_all sha (ev # evs) d = record_all sha evs (record_event sha ev d)"

text \<open>The log entry that a recorded event writes.\<close>

definition entry_of :: "(string \<Rightarrow> string) \<Rightarrow> usage_event \<Rightarrow> usage_log" where
  "entry_of sha ev =
     \<lparr>timestamp = ev_now_logged ev, token_id = derive_token_id sha (ev_secret ev),
      model = ev_model ev, log_tokens = ev_tokens_used ev, ip = ev_ip ev,
      country = get_country_from_ip (ev_geo ev) (ev_ip ev)\<rparr>"

text \<open>An event is recorded when its secret derives the id of a token of the store.\<close>

definition known :: "(string \<Rightarrow> string) \<Rightarrow> db \<Rightarrow> usage_event \<Rightarrow> bool" where
  "known sha d ev = (map_of (tokens d) (derive_token_id sha (ev_secret ev)) \<noteq> None)"

text \<open>The bound on the IP lists: every token holds at most 100 addresses, each once.\<close>

definition ips_bounded :: "db \<Rightarrow> bool" where
  "ips_bounded d =
     list_all (\<lambda>kt. length (ip_addresses (usage_stats (snd kt))) \<le> 100
                    \<and> distinct (ip_addresses (usage_stats (snd kt)))) (tokens d)"

subsection \<open>Calendar dates\<close>

text \<open>
  The library's \<open>strftime("%Y-%m-%d")\<close> on a datetime counted from 1970-01-01: the civil
  date of the day number, written with four, two and two digits (years 1000 to 9999). The
  timeline takes the formatter as a parameter; this one serves the worked examples.
\<close>

definition digit :: "int \<Rightarrow> char" where
  "digit n = ''0123456789'' ! nat n"

definition civil_from_days :: "int \<Rightarrow> int \<times> int \<times> int" where
  "civil_from_days days =
     (let z = days + 719468;
          era = z div 146097;
          doe = z - era * 146097;
          yoe = (doe - doe div 1460 + doe div 36524 - doe div 146096) div 365;
          doy = doe - (365 * yoe + yoe div 4 - yoe div 100);
          mp = (5 * doy + 2) div 153;
          dd = doy - (153 * mp + 2) div 5 + 1;
          mm = (if mp < 10 then mp + 3 else mp - 9);
          yy = yoe + era * 400 + (if mm \<le> 2 then 1 else 0)
      in (yy, mm, dd))"

definition strftime_ymd :: "datetime \<Rightarrow> string" where
  "strftime_ymd t =
     (case civil_from_days (t div 86400000000) of
        (yy, mm, dd) \<Rightarrow>
          [digit (yy div 1000), digit (yy div 100 mod 10), digit (yy div 10 mod 10),
           digit (yy mod 10)]
          @ ''-'' @ [digit (mm div 10), digit (mm mod 10)]
          @ ''-'' @ [digit (dd div 10), digit (dd mod 10)])"

subsection \<open>Timeline aggregator\<close>

record bucket =
  requests :: int
  bucket_tokens :: int

record timeline_point =
  date :: string
  point_requests :: int
  point_tokens :: int

text \<open>Python's truth value of an \<open>Optional[str]\<close>: \<open>None\<close> and the empty string are false.\<close>

definition truthy :: "string option \<Rightarrow> bool" where
  "truthy s = (case s of None \<Rightarrow> False | Some t \<Rightarrow> t \<noteq> [])"

text \<open>
  The loop over the log; \<open>strftime\<close> is the library's \<open>strftime("%Y-%m-%d")\<close>, a parameter.
\<close>

fun timeline_loop ::
  "(datetime \<Rightarrow> string) \<Rightarrow> datetime \<Rightarrow> string option \<Rightarrow> usage_log list
     \<Rightarrow> (string \<times> bucket) list \<Rightarrow> (string \<times> bucket) list" where
  "timeline_loop strftime cutoff_date tid [] timeline = timeline"
| "timeline_loop strftime cutoff_date tid (lg # logs) timeline =
     (if timestamp lg < cutoff_date then timeline_loop strftime cutoff_date tid logs timeline
      else if truthy tid \<and> Some (token_id lg) \<noteq> tid
      then timeline_loop strftime cutoff_date tid logs timeline
      else (let date_key = strftime (timestamp lg);
                t1 = (if map_of timeline date_key = None
                      then AList.update date_key \<lparr>requests = 0, bucket_tokens = 0\<rparr> timeline
                      else timeline);
                t2 = AList.map_entry date_key (\<lambda>b. b\<lparr>requests := requests b + 1\<rparr>) t1;
                t3 = AList.map_entry date_key
                       (\<lambda>b. b\<lparr>bucket_tokens := bucket_tokens b + log_tokens lg\<rparr>) t2
            in timeline_loop strftime cutoff_date tid logs t3))"

text \<open>
  \<open>sorted(timeline.items())\<close> compares the pairs by their keys, which are distinct, so it
  never compares two buckets.
\<close>

text \<open>\<open>[{"date": k, **v} for k, v in sorted(timeline.items())]\<close>.\<close>

definition timeline_points :: "(string \<times> bucket) list \<Rightarrow> timeline_point list" where
  "timeline_points timeline =
     map (\<lambda>kv. \<lparr>date = fst kv, point_requests = requests (snd kv),
                    point_tokens = bucket_tokens (snd kv)\<rparr>)
       (sort_key fst timeline)"

text \<open>
  \<open>get_usage_timeline\<close> first computes \<open>datetime.now() - timedelta(days=days)\<close>; either
  step may raise \<open>OverflowError\<close>, which nothing catches.
\<close>

definition get_usage_timeline ::
  "(datetime \<Rightarrow> string) \<Rightarrow> datetime \<Rightarrow> string option \<Rightarrow> int \<Rightarrow> db
     \<Rightarrow> py_error + timeline_point list" where
  "get_usage_timeline strftime now tid days d =
     (case timedelta_days days of
        Inl e \<Rightarrow> Inl e
      | Inr delta \<Rightarrow>
          (case datetime_minus now delta of
             Inl e \<Rightarrow> Inl e
           | Inr cutoff_date \<Rightarrow>
               Inr (timeline_points
                      (timeline_loop strftime cutoff_date tid (usage_logs d) []))))"

text \<open>
  The cutoff of a timeline query is representable: \<open>days\<close> is a valid \<open>timedelta\<close> and
  \<open>now - days\<close> is a datetime.
\<close>

definition cutoff_representable :: "datetime \<Rightarrow> int \<Rightarrow> bool" where
  "cutoff_representable now days =
     (\<bar>days\<bar> \<le> 999999999
      \<and> datetime_min \<le> now - days * 86400000000
      \<and> now - days * 86400000000 \<le> datetime_max)"

text \<open>
  The reference re-bucketing, in the words of the specification: keep the entries that are
  not older than the cutoff and, when a token id is supplied, that carry it; one bucket per
  date that occurs, in ascending order, with the count and the sum of its entries.
\<close>

definition survives :: "datetime \<Rightarrow> string option \<Rightarrow> usage_log \<Rightarrow> bool" where
  "survives cutoff_date tid lg =
     (\<not> timestamp lg < cutoff_date \<and> (case tid of None \<Rightarrow> True | Some t \<Rightarrow> token_id lg = t))"

definition rebucket ::
  "(datetime \<Rightarrow> string) \<Rightarrow> datetime \<Rightarrow> string option \<Rightarrow> usage_log list \<Rightarrow> timeline_point list" where
  "rebucket strftime cutoff_date tid logs =
     (let kept = filter (survives cutoff_date tid) logs
      in map (\<lambda>k. let day = filter (\<lambda>lg. strftime (timestamp lg) = k) kept
                   in \<lparr>date = k, point_requests = int (length day),
                       point_tokens = sum_list (map log_tokens day)\<rparr>)
           (sort (remdups (map (\<lambda>lg. strftime (timestamp lg)) kept))))"

section \<open>Sessions and the public endpoints (dashboard\_server.py)\<close>

record session =
  username :: string
  session_created_at :: datetime
  expires_at :: datetime

text \<open>
  \<open>create_session\<close>: \<open>rnd\<close> is the id from \<open>secrets.token_urlsafe(32)\<close>; the clock is read
  once for \<open>created_at\<close> and once more for \<open>expires_at\<close>.
\<close>

definition create_session ::
  "string \<Rightarrow> datetime \<Rightarrow> datetime \<Rightarrow> string \<Rightarrow> (string \<times> session) list
     \<Rightarrow> string \<times> (string \<times> session) list" where
  "create_session rnd now_created now_expiry uname sessions =
     (rnd, AList.update rnd
             \<lparr>username = uname, session_created_at = now_created,
              expires_at = now_expiry + timedelta_hours 24\<rparr> sessions)"

text \<open>\<open>not session_id\<close> holds for \<open>None\<close> and for the empty string.\<close>

definition validate_session ::
  "string option \<Rightarrow> datetime \<Rightarrow> (string \<times> session) list \<Rightarrow> bool \<times> (string \<times> session) list" where
  "validate_session session_id now sessions =
     (case session_id of
        None \<Rightarrow> (False, sessions)
      | Some sid \<Rightarrow>
          if sid = [] then (False, sessions)
          else (case map_of sessions sid of
                  None \<Rightarrow> (False, sessions)
                | Some s \<Rightarrow>
                    if now > expires_at s then (False, AList.delete sid sessions)
                    else (True, sessions)))"





section \<open>Loading the persisted state\<close>

text \<open>
  \<open>_load_data\<close> returns whatever \<open>json.load\<close> returns. A document is either a store or
  some other JSON value. The file is missing, or reading it raises \<open>JSONDecodeError\<close>, or
  raises something else, or yields a document.
\<close>

datatype json =
    JNull
  | JBool bool
  | JInt int
  | JStr string
  | JArr "json list"
  | JObj "(string \<times> json) list"

datatype document = Store db | Other json

datatype load_error = UnicodeDecodeError | OSError

datatype db_file = Missing | Invalid_json | Unreadable load_error | Parsed document

definition load_data :: "db_file \<Rightarrow> load_error + document" where
  "load_data file =
     (case file of
        Missing \<Rightarrow> Inr (Store create_empty_db)
      | Invalid_json \<Rightarrow> Inr (Store create_empty_db)
      | Unreadable e \<Rightarrow> Inl e
      | Parsed doc \<Rightarrow> Inr doc)"

section \<open>Invariants\<close>

text \<open>
  The invariant of the token store: the keys of the dictionary are distinct and the
  counter equals the number of active records.
\<close>

definition store_inv :: "db \<Rightarrow> bool" where
  "store_inv d =
     (distinct (map fst (tokens d)) \<and> active_tokens (stats d) = int (active_count d))"

text \<open>
  The state of the timeline loop after it has kept the entries \<open>kept\<close>: the dictionary
  holds, under distinct keys, one bucket for each date that occurs among them, with the
  count and the sum of the entries of that date.
\<close>

definition bucket_of :: "(datetime \<Rightarrow> string) \<Rightarrow> usage_log list \<Rightarrow> string \<Rightarrow> bucket" where
  "bucket_of strftime kept k =
     \<lparr>requests = int (length (filter (\<lambda>lg. strftime (timestamp lg) = k) kept)),
      bucket_tokens = sum_list (map log_tokens (filter (\<lambda>lg. strftime (timestamp lg) = k) kept))\<rparr>"

definition timeline_inv ::
  "(datetime \<Rightarrow> string) \<Rightarrow> usage_log list \<Rightarrow> (string \<times> bucket) list \<Rightarrow> bool" where
  "timeline_inv strftime kept timeline =
     (distinct (map fst timeline)
      \<and> (\<forall>k. map_of timeline k
               = (if k \<in> (\<lambda>lg. strftime (timestamp lg)) ` set kept
                  then Some (bucket_of strftime kept k) else None)))"

section \<open>Worked examples\<close>

text \<open>
  A digest for the examples: the theorems hold for every digest function, the examples
  run with the identity, so that a token id is the first 16 characters of the secret.
\<close>

definition plain_digest :: "string \<Rightarrow> string" where
  "plain_digest s = s"

definition fresh_stats :: token_stats where
  "fresh_stats =
     \<lparr>total_requests = 0, total_tokens = 0, models_used = [], ip_addresses = [],
      countries = []\<rparr>"

text \<open>A store with a revoked token \<open>lma_alpha\<close> and an active token \<open>lma_beta\<close>.\<close>

definition example_db :: db where
  "example_db =
     \<lparr>tokens =
        [(''lma_alpha'', \<lparr>key = ''lma_alpha'', created_at = 0, last_used = None,
                          is_active = False, user_info = [], usage_stats = fresh_stats\<rparr>),
         (''lma_beta'', \<lparr>key = ''lma_beta'', created_at = 5, last_used = None,
                         is_active = True, user_info = [], usage_stats = fresh_stats\<rparr>)],
      usage_logs = [],
      stats = \<lparr>stats_total_requests = 0, stats_total_tokens = 0, active_tokens = 1\<rparr>\<rparr>"

definition example_ops :: "admin_op list" where
  "example_ops =
     [Generate ''alpha'' 0 None, Generate ''beta'' 5 (Some [(''name'', ''B'')]),
      Revoke ''lma_alpha'', Revoke ''lma_alpha'', Activate ''lma_alpha'',
      Delete ''lma_beta'', Delete ''lma_gamma'']"

text \<open>A session store holding the session \<open>s1\<close>, created with the clock at 1000.\<close>

definition example_sessions :: "(string \<times> session) list" where
  "example_sessions = snd (create_session ''s1'' 1000 1000 ''admin'' [])"

text \<open>Usage events on the token \<open>lma_beta\<close> from the local address, numbered by the clock.\<close>

definition example_event :: "int \<Rightarrow> usage_event" where
  "example_event i =
     \<lparr>ev_secret = ''lma_beta'', ev_model = ''gpt'', ev_tokens_used = 10,
      ev_ip = ''127.0.0.1'', ev_geo = (\<lambda>a. Geo_raises), ev_now_used = i,
      ev_now_logged = i\<rparr>"

definition example_events :: "usage_event list" where
  "example_events = example_event 0 # example_event 1 # replicate 9999 (example_event 2)"

text \<open>101 usage events on the token \<open>lma_beta\<close>, each from an address of its own.\<close>

definition ip_event :: "nat \<Rightarrow> usage_event" where
  "ip_event i =
     \<lparr>ev_secret = ''lma_beta'', ev_model = ''gpt'', ev_tokens_used = 1,
      ev_ip = replicate (Suc i) (CHR ''7''), ev_geo = (\<lambda>a. Geo_raises),
      ev_now_used = int i, ev_now_logged = int i\<rparr>"

definition ip_events :: "usage_event list" where
  "ip_events = map ip_event [0..<101]"

text \<open>
  A store with four log entries: one of 2024-02-18, two of 2024-02-29 (one per token) and
  one of 2024-03-01; the clock of the examples stands at 2024-03-01 02:00.
\<close>

definition timeline_db :: db where
  "timeline_db =
     example_db\<lparr>usage_logs :=
       [\<lparr>timestamp = 1708250400000000, token_id = ''lma_beta'', model = ''gpt'',
         log_tokens = 3, ip = ''127.0.0.1'', country = Some ''Local''\<rparr>,
        \<lparr>timestamp = 1709200800000000, token_id = ''lma_beta'', model = ''gpt'',
         log_tokens = 10, ip = ''127.0.0.1'', country = Some ''Local''\<rparr>,
        \<lparr>timestamp = 1709204400000000, token_id = ''lma_alpha'', model = ''gpt'',
         log_tokens = 5, ip = ''127.0.0.1'', country = Some ''Local''\<rparr>,
        \<lparr>timestamp = 1709254800000000, token_id = ''lma_beta'', model = ''gpt'',
         log_tokens = 7, ip = ''127.0.0.1'', country = Some ''Local''\<rparr>]\<rparr>"

definition timeline_now :: datetime where
  "timeline_now = 1709254800000000 + 3600000000"

section \<open>Association lists\<close>

lemma count_update_fresh:
  "map_of al k = None \<Longrightarrow>
   length (filter P (AList.update k v al)) = length (filter P al) + (if P (k, v) then 1 else 0)"
  by (induction al) (auto split: if_splits)

lemma count_update_present:
  "distinct (map fst al) \<Longrightarrow> map_of al k = Some t \<Longrightarrow>
   length (filter P (AList.update k v al)) + (if P (k, t) then 1 else 0)
     = length (filter P al) + (if P (k, v) then 1 else 0)"
proof (induction al)
  case Nil
  then show ?case by simp
next
  case (Cons p al)
  show ?case
  proof (cases "fst p = k")
    case True
    with Cons.prems have "p = (k, t)" by (cases p) simp
    with True show ?thesis by simp
  next
    case False
    with Cons show ?thesis by (cases p) auto
  qed
qed

lemma count_delete_present:
  "distinct (map fst al) \<Longrightarrow> map_of al k = Some t \<Longrightarrow>
   length (filter P (AList.delete k al)) + (if P (k, t) then 1 else 0) = length (filter P al)"
proof (induction al)
  case Nil
  then show ?case by simp
next
  case (Cons p al)
  show ?case
  proof (cases "fst p = k")
    case True
    with Cons.prems have p: "p = (k, t)" and "k \<notin> fst ` set al" by (cases p; simp)+
    then have "AList.delete k al = al" by simp
    with p show ?thesis by simp
  next
    case False
    with Cons show ?thesis by (cases p) auto
  qed
qed

lemma update_keys_present:
  "map_of al k = Some t \<Longrightarrow> map fst (AList.update k v al) = map fst al"
  by (auto simp: update_keys dest: map_of_SomeD intro: rev_image_eqI)

section \<open>Token store: the counter of active tokens\<close>

lemma inv_generate:
  "store_inv d \<Longrightarrow> map_of (tokens d) (derive_token_id sha (''lma_'' @ rnd)) = None \<Longrightarrow>
   store_inv (snd (generate_token sha rnd now info d))"
  by (simp add: store_inv_def generate_token_def Let_def active_count_def
        count_update_fresh distinct_update)

lemma inv_revoke: "store_inv d \<Longrightarrow> store_inv (snd (revoke_token tid d))"
proof (cases "map_of (tokens d) tid")
  case None
  assume "store_inv d"
  with None show ?thesis by (simp add: revoke_token_def)
next
  case (Some t)
  assume inv: "store_inv d"
  then have dist: "distinct (map fst (tokens d))" by (simp add: store_inv_def)
  from count_update_present[OF dist Some, of "\<lambda>kt. is_active (snd kt)" "t\<lparr>is_active := False\<rparr>"]
  show ?thesis using inv Some dist
    by (auto simp: store_inv_def revoke_token_def active_count_def distinct_update)
qed

lemma inv_activate: "store_inv d \<Longrightarrow> store_inv (snd (activate_token tid d))"
proof (cases "map_of (tokens d) tid")
  case None
  assume "store_inv d"
  with None show ?thesis by (simp add: activate_token_def)
next
  case (Some t)
  assume inv: "store_inv d"
  then have dist: "distinct (map fst (tokens d))" by (simp add: store_inv_def)
  from count_update_present[OF dist Some, of "\<lambda>kt. is_active (snd kt)" "t\<lparr>is_active := True\<rparr>"]
  show ?thesis using inv Some dist
    by (auto simp: store_inv_def activate_token_def active_count_def distinct_update)
qed

lemma inv_delete: "store_inv d \<Longrightarrow> store_inv (snd (delete_token tid d))"
proof (cases "map_of (tokens d) tid")
  case None
  assume "store_inv d"
  with None show ?thesis by (simp add: delete_token_def)
next
  case (Some t)
  assume inv: "store_inv d"
  then have dist: "distinct (map fst (tokens d))" by (simp add: store_inv_def)
  from count_delete_present[OF dist Some, of "\<lambda>kt. is_active (snd kt)"]
  show ?thesis using inv Some dist
    by (auto simp: store_inv_def delete_token_def active_count_def distinct_delete)
qed

lemma inv_apply_op:
  "store_inv d \<Longrightarrow> fresh_ids sha [x] d \<Longrightarrow> store_inv (apply_op sha x d)"
  by (cases x) (simp_all add: inv_generate inv_revoke inv_activate inv_delete)

lemma inv_empty: "store_inv create_empty_db"
  by (simp add: store_inv_def create_empty_db_def active_count_def)

lemma fresh_ids_append:
  "fresh_ids sha (xs @ ys) d = (fresh_ids sha xs d \<and> fresh_ids sha ys (run_ops sha xs d))"
  by (induction xs arbitrary: d) auto

lemma inv_run_ops: "store_inv d \<Longrightarrow> fresh_ids sha xs d \<Longrightarrow> store_inv (run_ops sha xs d)"
proof (induction xs arbitrary: d)
  case Nil
  then show ?case by simp
next
  case (Cons x xs)
  from Cons.prems have "store_inv (apply_op sha x d)" by (intro inv_apply_op) auto
  with Cons show ?case by simp
qed

lemma fresh_take: "fresh_ids sha xs d \<Longrightarrow> fresh_ids sha (take n xs) d"
  using fresh_ids_append[of sha "take n xs" "drop n xs" d] by simp

lemma fresh_nth:
  assumes "fresh_ids sha xs d" "n < length xs"
  shows "fresh_ids sha [xs ! n] (run_ops sha (take n xs) d)"
proof -
  have "xs = take n xs @ (xs ! n) # drop (Suc n) xs"
    using assms(2) by (simp add: id_take_nth_drop)
  then have "fresh_ids sha (take n xs @ (xs ! n) # drop (Suc n) xs) d"
    using assms(1) by simp
  then show ?thesis by (simp add: fresh_ids_append)
qed

lemma delta_step:
  "fresh_ids sha [x] d \<Longrightarrow>
   active_tokens (stats (apply_op sha x d)) - active_tokens (stats d)
     = (if active_of (apply_op sha x d) (target sha x) then 1 else 0)
       - (if active_of d (target sha x) then 1 else 0)"
  by (cases x)
     (auto simp: generate_token_def revoke_token_def activate_token_def delete_token_def
        active_of_def update_conv' delete_conv' Let_def split: option.splits)

text \<open>
  C1. Along every sequence of generate, revoke, activate and delete operations from the
  empty store, in which each generated secret derives a token id that is not yet a key
  (the secrets are random), the counter \<open>active_tokens\<close> equals the number of records
  whose \<open>is_active\<close> is true after each operation, and each operation moves the counter
  by the change of the \<open>is_active\<close> state of the one token it is about: by +1, -1 or 0,
  computed from the previous counter and not from a scan.
\<close>

theorem active_tokens_consistent:
  assumes "fresh_ids sha ops create_empty_db"
  shows "(\<forall>n \<le> length ops.
            active_tokens (stats (run_ops sha (take n ops) create_empty_db))
              = int (active_count (run_ops sha (take n ops) create_empty_db)))
       \<and> (\<forall>n < length ops.
            let d = run_ops sha (take n ops) create_empty_db;
                d' = apply_op sha (ops ! n) d;
                tid = target sha (ops ! n)
            in active_tokens (stats d') - active_tokens (stats d)
                 = (if active_of d' tid then 1 else 0) - (if active_of d tid then 1 else 0))"
proof (intro conjI allI impI)
  fix n assume "n \<le> length ops"
  have "store_inv (run_ops sha (take n ops) create_empty_db)"
    by (rule inv_run_ops[OF inv_empty fresh_take[OF assms]])
  then show "active_tokens (stats (run_ops sha (take n ops) create_empty_db))
              = int (active_count (run_ops sha (take n ops) create_empty_db))"
    by (simp add: store_inv_def)
next
  fix n assume "n < length ops"
  from delta_step[OF fresh_nth[OF assms this]]
  show "let d = run_ops sha (take n ops) create_empty_db;
                d' = apply_op sha (ops ! n) d;
                tid = target sha (ops ! n)
            in active_tokens (stats d') - active_tokens (stats d)
                 = (if active_of d' tid then 1 else 0) - (if active_of d tid then 1 else 0)"
    by (simp add: Let_def)
qed

lemma example_ops_fresh: "fresh_ids plain_digest example_ops create_empty_db"
  by (simp add: example_ops_def create_empty_db_def plain_digest_def derive_token_id_def
        generate_token_def revoke_token_def activate_token_def delete_token_def Let_def)

theorem active_tokens_consistent_witness:
  "fresh_ids plain_digest example_ops create_empty_db
   \<and> active_tokens (stats (run_ops plain_digest example_ops create_empty_db))
       = int (active_count (run_ops plain_digest example_ops create_empty_db))
   \<and> active_tokens (stats (run_ops plain_digest (take 3 example_ops) create_empty_db))
       = int (active_count (run_ops plain_digest (take 3 example_ops) create_empty_db))"
proof -
  have len: "length example_ops = 7" by (simp add: example_ops_def)
  from active_tokens_consistent[OF example_ops_fresh]
  have all: "\<forall>n \<le> length example_ops.
            active_tokens (stats (run_ops plain_digest (take n example_ops) create_empty_db))
              = int (active_count (run_ops plain_digest (take n example_ops) create_empty_db))"
    by blast
  have whole: "take 7 example_ops = example_ops" by (simp add: example_ops_def)
  from all[rule_format, of 7] len whole
  have a: "active_tokens (stats (run_ops plain_digest example_ops create_empty_db))
              = int (active_count (run_ops plain_digest example_ops create_empty_db))"
    by simp
  from all[rule_format, of 3] len
  have b: "active_tokens (stats (run_ops plain_digest (take 3 example_ops) create_empty_db))
              = int (active_count (run_ops plain_digest (take 3 example_ops) create_empty_db))"
    by simp
  from a b example_ops_fresh show ?thesis by blast
qed

section \<open>Token store: revoke and activate\<close>

text \<open>
  C6. \<open>revoke_token\<close> returns true exactly when the token exists, also when it is already
  inactive; revoking a token that is not active leaves \<open>active_tokens\<close> unchanged; a second
  revocation returns the same result and leaves the store as the first one left it.
\<close>

theorem revoke_token_idempotent:
  "fst (revoke_token tid d) = (map_of (tokens d) tid \<noteq> None)
   \<and> (\<not> active_of d tid \<longrightarrow>
        active_tokens (stats (snd (revoke_token tid d))) = active_tokens (stats d))
   \<and> revoke_token tid (snd (revoke_token tid d))
       = (fst (revoke_token tid d), snd (revoke_token tid d))"
  by (simp add: revoke_token_def active_of_def update_conv' split: option.splits)

theorem revoke_token_idempotent_witness:
  "\<not> active_of example_db ''lma_alpha''
   \<and> fst (revoke_token ''lma_alpha'' example_db)
   \<and> active_tokens (stats (snd (revoke_token ''lma_alpha'' example_db))) = 1
   \<and> \<not> fst (revoke_token ''lma_gamma'' example_db)"
proof -
  have h: "\<not> active_of example_db ''lma_alpha''"
    by (simp add: active_of_def example_db_def)
  have "map_of (tokens example_db) ''lma_alpha'' \<noteq> None"
    and "map_of (tokens example_db) ''lma_gamma'' = None"
    and "active_tokens (stats example_db) = 1"
    by (simp_all add: example_db_def)
  with h revoke_token_idempotent[of "''lma_alpha''" example_db]
    revoke_token_idempotent[of "''lma_gamma''" example_db]
  show ?thesis by simp
qed

text \<open>
  C10. On a token of the store, \<open>revoke_token\<close> and \<open>activate_token\<close> change only that
  token's \<open>is_active\<close> field and \<open>stats.active_tokens\<close>: the record keeps its other
  fields, every other key keeps its record, the order of the keys, the usage log and the
  two global totals are as before.
\<close>

theorem revoke_activate_frame:
  assumes "map_of (tokens d) tid = Some t"
  shows "(let d' = snd (revoke_token tid d) in
            map_of (tokens d') tid = Some (t\<lparr>is_active := False\<rparr>)
          \<and> (\<forall>k. k \<noteq> tid \<longrightarrow> map_of (tokens d') k = map_of (tokens d) k)
          \<and> map fst (tokens d') = map fst (tokens d)
          \<and> usage_logs d' = usage_logs d
          \<and> stats d' = (stats d)\<lparr>active_tokens := active_tokens (stats d')\<rparr>)
       \<and> (let d' = snd (activate_token tid d) in
            map_of (tokens d') tid = Some (t\<lparr>is_active := True\<rparr>)
          \<and> (\<forall>k. k \<noteq> tid \<longrightarrow> map_of (tokens d') k = map_of (tokens d) k)
          \<and> map fst (tokens d') = map fst (tokens d)
          \<and> usage_logs d' = usage_logs d
          \<and> stats d' = (stats d)\<lparr>active_tokens := active_tokens (stats d')\<rparr>)"
  using assms
  by (simp add: revoke_token_def activate_token_def update_conv' update_keys_present Let_def)

theorem revoke_activate_frame_witness:
  "map_of (tokens example_db) ''lma_beta''
     = Some \<lparr>key = ''lma_beta'', created_at = 5, last_used = None, is_active = True,
             user_info = [], usage_stats = fresh_stats\<rparr>
   \<and> map_of (tokens (snd (revoke_token ''lma_beta'' example_db))) ''lma_beta''
     = Some \<lparr>key = ''lma_beta'', created_at = 5, last_used = None, is_active = False,
             user_info = [], usage_stats = fresh_stats\<rparr>
   \<and> map_of (tokens (snd (revoke_token ''lma_beta'' example_db))) ''lma_alpha''
     = map_of (tokens example_db) ''lma_alpha''
   \<and> usage_logs (snd (activate_token ''lma_beta'' example_db)) = usage_logs example_db"
proof -
  have h: "map_of (tokens example_db) ''lma_beta''
     = Some \<lparr>key = ''lma_beta'', created_at = 5, last_used = None, is_active = True,
             user_info = [], usage_stats = fresh_stats\<rparr>"
    by (simp add: example_db_def)
  from revoke_activate_frame[OF h] h show ?thesis
    by (simp add: Let_def)
qed

section \<open>Usage recorder: unknown tokens\<close>

text \<open>
  C2. When the token id derived from the secret is not a key of the token map,
  \<open>log_usage\<close> returns the store it was given: no record, no log entry and no counter
  changes, and the call has no other outcome.
\<close>

theorem log_usage_unknown_token:
  "map_of (tokens d) (derive_token_id sha tok) = None \<Longrightarrow>
   log_usage sha geo now_used now_logged tok mdl tokens_used ip_addr d = d"
  by (simp add: log_usage_def)

theorem log_usage_unknown_token_witness:
  "map_of (tokens example_db) (derive_token_id plain_digest ''lma_gamma'') = None
   \<and> log_usage plain_digest (\<lambda>a. Geo_raises) 10 11 ''lma_gamma'' ''gpt'' 7 ''1.2.3.4'' example_db
       = example_db"
proof -
  have h: "map_of (tokens example_db) (derive_token_id plain_digest ''lma_gamma'') = None"
    by (simp add: example_db_def derive_token_id_def plain_digest_def)
  from log_usage_unknown_token[OF h] h show ?thesis by simp
qed

section \<open>The public token lookup\<close>



section \<open>Loading the persisted state\<close>

text \<open>
  C8, as the claim states it, fails: a file whose content parses as JSON but is not a
  store, such as \<open>[]\<close>, is returned as it is and not replaced by the empty structure.
\<close>

theorem load_data_counterexample:
  "load_data (Parsed (Other (JArr []))) \<noteq> Inr (Store create_empty_db)"
  by (simp add: load_data_def)

text \<open>
  C8, amended. When the state file is missing, or its content is not JSON so that reading
  it raises \<open>JSONDecodeError\<close>, loading returns the empty structure and raises nothing; a
  content that parses is returned as it was parsed, without a check of its shape.
\<close>

theorem load_data_empty_on_missing_or_invalid:
  "(file = Missing \<or> file = Invalid_json \<longrightarrow>
      load_data file
        = Inr (Store \<lparr>tokens = [], usage_logs = [],
                       stats = \<lparr>stats_total_requests = 0, stats_total_tokens = 0,
                                active_tokens = 0\<rparr>\<rparr>))
   \<and> (\<forall>doc. file = Parsed doc \<longrightarrow> load_data file = Inr doc)"
  by (auto simp: load_data_def create_empty_db_def)

theorem load_data_empty_on_missing_or_invalid_witness:
  "load_data Missing = Inr (Store create_empty_db)
   \<and> load_data Invalid_json = Inr (Store create_empty_db)
   \<and> load_data (Parsed (Store example_db)) = Inr (Store example_db)"
  using load_data_empty_on_missing_or_invalid[of Missing]
    load_data_empty_on_missing_or_invalid[of Invalid_json]
    load_data_empty_on_missing_or_invalid[of "Parsed (Store example_db)"]
  by (simp add: create_empty_db_def)

section \<open>Sessions\<close>

text \<open>
  C7. A session is created with \<open>expires_at\<close> 24 hours after the clock reading taken for
  it. \<open>validate_session\<close> reports a session valid only if it is in the store and the time
  is not after its \<open>expires_at\<close>; it reports invalid when the id is absent or the time is
  after \<open>expires_at\<close>. The validation that finds a session expired deletes it, a validation
  that finds it unexpired leaves the store as it is, and once deleted the id stays invalid.
  A session created at \<open>T\<close> is valid at \<open>T\<close> + 23 h 59 min and invalid at \<open>T\<close> + 24 h 1 min.
\<close>

theorem validate_session_expiry:
  "(fst (validate_session session_id now sessions) \<longrightarrow>
      (\<exists>sid s. session_id = Some sid \<and> map_of sessions sid = Some s \<and> now \<le> expires_at s
               \<and> snd (validate_session session_id now sessions) = sessions))
   \<and> (\<forall>sid. session_id = Some sid \<and> map_of sessions sid = None \<longrightarrow>
         validate_session session_id now sessions = (False, sessions))
   \<and> (\<forall>sid s. session_id = Some sid \<and> sid \<noteq> [] \<and> map_of sessions sid = Some s
               \<and> now > expires_at s \<longrightarrow>
         validate_session session_id now sessions = (False, AList.delete sid sessions)
         \<and> map_of (AList.delete sid sessions) sid = None
         \<and> (\<forall>later. validate_session session_id later (AList.delete sid sessions)
                       = (False, AList.delete sid sessions)))
   \<and> (\<forall>sid s. session_id = Some sid \<and> map_of sessions sid = Some s \<and> now > expires_at s \<longrightarrow>
         \<not> fst (validate_session session_id now sessions))
   \<and> (\<forall>rnd t1 T uname. rnd \<noteq> [] \<longrightarrow>
         (let ss = snd (create_session rnd t1 T uname sessions)
          in map_of ss rnd
               = Some \<lparr>username = uname, session_created_at = t1,
                       expires_at = T + timedelta_hours 24\<rparr>
           \<and> validate_session (Some rnd) (T + 86340000000) ss = (True, ss)
           \<and> validate_session (Some rnd) (T + 86460000000) ss = (False, AList.delete rnd ss)))"
  by (auto simp: validate_session_def create_session_def timedelta_hours_def update_conv'
        delete_conv' Let_def split: option.splits)

theorem validate_session_expiry_witness:
  "map_of example_sessions ''s1''
     = Some \<lparr>username = ''admin'', session_created_at = 1000, expires_at = 86400001000\<rparr>
   \<and> validate_session (Some ''s1'') 86340001000 example_sessions = (True, example_sessions)
   \<and> validate_session (Some ''s1'') 86460001000 example_sessions = (False, [])
   \<and> validate_session (Some ''s1'') 86460001000 [] = (False, [])"
proof -
  have del: "AList.delete ''s1'' example_sessions = []"
    by (simp add: example_sessions_def create_session_def)
  have ne: "''s1'' \<noteq> []" by simp
  from validate_session_expiry[of "Some ''s1''" 86460001000 "[]"]
  have gone: "validate_session (Some ''s1'') 86460001000 [] = (False, [])" by simp
  from validate_session_expiry[of None 0 "[]"] ne
  have "let ss = snd (create_session ''s1'' 1000 1000 ''admin'' [])
          in map_of ss ''s1''
               = Some \<lparr>username = ''admin'', session_created_at = 1000,
                       expires_at = 1000 + timedelta_hours 24\<rparr>
           \<and> validate_session (Some ''s1'') (1000 + 86340000000) ss = (True, ss)
           \<and> validate_session (Some ''s1'') (1000 + 86460000000) ss
               = (False, AList.delete ''s1'' ss)"
    by blast
  with del gone show ?thesis
    by (simp add: example_sessions_def [symmetric] Let_def timedelta_hours_def)
qed

section \<open>Usage recorder: the capped log\<close>

lemma window_append:
  "drop (length (drop (length xs - c) xs @ ys) - c) (drop (length xs - c) xs @ ys)
     = drop (length (xs @ ys) - c) (xs @ ys)"
proof (cases "length xs \<le> c")
  case True
  then show ?thesis by (simp add: add.commute)
next
  case False
  then have "length (drop (length xs - c) xs) = c" by simp
  with False show ?thesis by (simp add: add.commute)
qed

lemma append_log_window:
  "append_log e logs = drop (length (logs @ [e]) - 10000) (logs @ [e])"
  by (simp add: append_log_def Let_def)

lemma record_event_unknown: "\<not> known sha d ev \<Longrightarrow> record_event sha ev d = d"
  by (simp add: known_def record_event_def log_usage_def)

lemma record_event_known_logs:
  "known sha d ev \<Longrightarrow>
   usage_logs (record_event sha ev d) = append_log (entry_of sha ev) (usage_logs d)"
  by (auto simp: known_def record_event_def log_usage_def entry_of_def Let_def)

lemma record_event_known_stats:
  "known sha d ev \<Longrightarrow>
   stats (record_event sha ev d)
     = (stats d)\<lparr>stats_total_requests := stats_total_requests (stats d) + 1,
                 stats_total_tokens := stats_total_tokens (stats d) + ev_tokens_used ev\<rparr>"
  by (auto simp: known_def record_event_def log_usage_def Let_def)

lemma record_event_keys:
  "map_of (tokens (record_event sha ev d)) k = None \<longleftrightarrow> map_of (tokens d) k = None"
  by (auto simp: record_event_def log_usage_def Let_def update_conv' split: option.splits)

lemma known_record_event: "known sha (record_event sha ev d) = known sha d"
  by (rule ext) (simp add: known_def record_event_keys)

lemma record_all_logs:
  "length (usage_logs d) \<le> 10000 \<Longrightarrow>
   usage_logs (record_all sha evs d)
     = drop (length (usage_logs d @ map (entry_of sha) (filter (known sha d) evs)) - 10000)
         (usage_logs d @ map (entry_of sha) (filter (known sha d) evs))"
proof (induction evs arbitrary: d)
  case Nil
  then show ?case by simp
next
  case (Cons ev evs)
  show ?case
  proof (cases "known sha d ev")
    case False
    with Cons show ?thesis by (simp add: record_event_unknown)
  next
    case True
    let ?d1 = "record_event sha ev d"
    have logs1: "usage_logs ?d1
        = drop (length (usage_logs d @ [entry_of sha ev]) - 10000)
            (usage_logs d @ [entry_of sha ev])"
      using True by (simp add: record_event_known_logs append_log_window)
    then have "length (usage_logs ?d1) \<le> 10000" by simp
    from Cons.IH[OF this]
    have "usage_logs (record_all sha evs ?d1)
        = drop (length (usage_logs ?d1 @ map (entry_of sha) (filter (known sha d) evs)) - 10000)
            (usage_logs ?d1 @ map (entry_of sha) (filter (known sha d) evs))"
      by (simp add: known_record_event)
    also have "\<dots> = drop (length ((usage_logs d @ [entry_of sha ev])
                              @ map (entry_of sha) (filter (known sha d) evs)) - 10000)
            ((usage_logs d @ [entry_of sha ev]) @ map (entry_of sha) (filter (known sha d) evs))"
      unfolding logs1 by (rule window_append)
    finally show ?thesis using True by simp
  qed
qed

lemma record_all_stats:
  "stats (record_all sha evs d)
     = (stats d)\<lparr>stats_total_requests :=
                   stats_total_requests (stats d) + int (length (filter (known sha d) evs)),
                 stats_total_tokens :=
                   stats_total_tokens (stats d)
                     + sum_list (map ev_tokens_used (filter (known sha d) evs))\<rparr>"
proof (induction evs arbitrary: d)
  case Nil
  then show ?case by simp
next
  case (Cons ev evs)
  show ?case
  proof (cases "known sha d ev")
    case False
    with Cons show ?thesis by (simp add: record_event_unknown)
  next
    case True
    with Cons[of "record_event sha ev d"] show ?thesis
      by (simp add: known_record_event record_event_known_stats)
  qed
qed

text \<open>
  C3. From a store whose log is within the cap, after any sequence of \<open>log_usage\<close> calls
  the log is the last 10000 of the old entries followed by the entries of the recorded
  events (those whose token is known), hence at most 10000 long, also after a single call
  with any token; the two global totals grow by the number of recorded events and by the
  sum of their tokens, whatever the truncation. From an empty log, 10001 recorded events
  leave 10000 entries, the oldest of them the second event.
\<close>

theorem usage_log_capped:
  assumes "length (usage_logs d) \<le> 10000"
  shows "(let recorded = filter (known sha d) evs;
              entries = usage_logs d @ map (entry_of sha) recorded;
              d' = record_all sha evs d
          in usage_logs d' = drop (length entries - 10000) entries
           \<and> length (usage_logs d') \<le> 10000
           \<and> stats_total_requests (stats d')
               = stats_total_requests (stats d) + int (length recorded)
           \<and> stats_total_tokens (stats d')
               = stats_total_tokens (stats d) + sum_list (map ev_tokens_used recorded)
           \<and> active_tokens (stats d') = active_tokens (stats d)
           \<and> (usage_logs d = [] \<and> length recorded = 10001 \<longrightarrow>
                length (usage_logs d') = 10000
                \<and> hd (usage_logs d') = entry_of sha (recorded ! 1)))
       \<and> length (usage_logs (log_usage sha geo now_used now_logged tok mdl used ip_addr d))
           \<le> 10000"
proof -
  let ?rec = "filter (known sha d) evs"
  let ?all = "usage_logs d @ map (entry_of sha) ?rec"
  have logs: "usage_logs (record_all sha evs d) = drop (length ?all - 10000) ?all"
    by (rule record_all_logs[OF assms])
  have len: "length (usage_logs (record_all sha evs d)) \<le> 10000"
    unfolding logs using assms by simp
  have scen: "length (usage_logs (record_all sha evs d)) = 10000
       \<and> hd (usage_logs (record_all sha evs d)) = entry_of sha (?rec ! 1)"
    if "usage_logs d = []" "length ?rec = 10001"
  proof -
    from that have "usage_logs (record_all sha evs d) = drop 1 (map (entry_of sha) ?rec)"
      unfolding logs by simp
    with that(2) show ?thesis by (simp add: hd_drop_conv_nth)
  qed
  have one: "length (usage_logs (log_usage sha geo now_used now_logged tok mdl used ip_addr d))
           \<le> 10000"
    using assms by (auto simp: log_usage_def append_log_def Let_def split: option.splits)
  show ?thesis
    using logs len scen one by (simp add: Let_def record_all_stats)
qed

theorem usage_log_capped_witness:
  "length (usage_logs example_db) \<le> 10000
   \<and> usage_logs example_db = []
   \<and> length (filter (known plain_digest example_db) example_events) = 10001
   \<and> length (usage_logs (record_all plain_digest example_events example_db)) = 10000
   \<and> hd (usage_logs (record_all plain_digest example_events example_db))
       = entry_of plain_digest (example_event 1)
   \<and> stats_total_requests (stats (record_all plain_digest example_events example_db)) = 10001
   \<and> stats_total_tokens (stats (record_all plain_digest example_events example_db)) = 100010"
proof -
  have h: "length (usage_logs example_db) \<le> 10000" and e: "usage_logs example_db = []"
    and s: "stats_total_requests (stats example_db) = 0"
           "stats_total_tokens (stats example_db) = 0"
    by (simp_all add: example_db_def)
  have k: "known plain_digest example_db (example_event i)" for i
    by (simp add: known_def example_event_def example_db_def derive_token_id_def
          plain_digest_def)
  have r: "filter (known plain_digest example_db) example_events = example_events"
    by (simp add: example_events_def k)
  have n: "length example_events = 10001" and second: "example_events ! 1 = example_event 1"
    and total: "sum_list (map ev_tokens_used example_events) = 100010"
    by (simp_all add: example_events_def example_event_def sum_list_replicate)
  from usage_log_capped[OF h, of plain_digest example_events] r n e s second total
  show ?thesis by (simp add: Let_def hd_drop_conv_nth)
qed

section \<open>Usage recorder: the IP addresses of a token\<close>

lemma track_ip_window:
  "ip_addr \<notin> set ips \<Longrightarrow> length ips \<le> 100 \<Longrightarrow>
   track_ip ip_addr ips = drop (length (ips @ [ip_addr]) - 100) (ips @ [ip_addr])"
proof (cases "length ips < 100")
  case True
  moreover assume "ip_addr \<notin> set ips"
  ultimately show ?thesis by (simp add: track_ip_def Let_def)
next
  case False
  assume new: "ip_addr \<notin> set ips" and "length ips \<le> 100"
  with False have n: "length ips = 100" by simp
  then have "length (ips @ [ip_addr]) - 100 = Suc 0" by simp
  moreover have "drop (Suc 0) (ips @ [ip_addr]) = tl (ips @ [ip_addr])"
    by (cases ips) simp_all
  ultimately show ?thesis using new n by (simp add: track_ip_def Let_def)
qed

lemma track_ip_bounded:
  "length ips \<le> 100 \<Longrightarrow> distinct ips \<Longrightarrow>
   length (track_ip ip_addr ips) \<le> 100 \<and> distinct (track_ip ip_addr ips)"
  by (auto simp: track_ip_def Let_def distinct_tl)

lemma track_ip_cases:
  "track_ip ip_addr ips
     = (if ip_addr \<in> set ips then ips
        else if length ips < 100 then ips @ [ip_addr]
        else tl (ips @ [ip_addr]))"
  by (auto simp: track_ip_def Let_def)

lemma list_all_update:
  "list_all P al \<Longrightarrow> P (k, v) \<Longrightarrow> list_all P (AList.update k v al)"
  by (induction al) auto

lemma log_usage_ips:
  "map_of (tokens d) (derive_token_id sha tok) = Some t \<Longrightarrow>
   \<exists>t'. map_of (tokens (log_usage sha geo now_used now_logged tok mdl used ip_addr d))
           (derive_token_id sha tok) = Some t'
       \<and> ip_addresses (usage_stats t') = track_ip ip_addr (ip_addresses (usage_stats t))"
  by (cases "get_country_from_ip geo ip_addr")
     (simp_all add: log_usage_def Let_def update_conv')

lemma log_usage_other:
  "k \<noteq> derive_token_id sha tok \<Longrightarrow>
   map_of (tokens (log_usage sha geo now_used now_logged tok mdl used ip_addr d)) k
     = map_of (tokens d) k"
  by (simp add: log_usage_def Let_def update_conv' split: option.splits)

lemma log_usage_ips_bounded:
  assumes "ips_bounded d"
  shows "ips_bounded (log_usage sha geo now_used now_logged tok mdl used ip_addr d)"
proof (cases "map_of (tokens d) (derive_token_id sha tok)")
  case None
  with assms show ?thesis by (simp add: log_usage_def)
next
  case (Some t)
  let ?P = "\<lambda>kt. length (ip_addresses (usage_stats (snd kt))) \<le> 100
                  \<and> distinct (ip_addresses (usage_stats (snd kt)))"
  from Some have "(derive_token_id sha tok, t) \<in> set (tokens d)" by (rule map_of_SomeD)
  with assms have "?P (derive_token_id sha tok, t)"
    unfolding ips_bounded_def list_all_iff by blast
  then have b: "length (track_ip ip_addr (ip_addresses (usage_stats t))) \<le> 100
      \<and> distinct (track_ip ip_addr (ip_addresses (usage_stats t)))"
    by (simp add: track_ip_bounded)
  from assms have all: "list_all ?P (tokens d)" by (simp add: ips_bounded_def)
  show ?thesis
    unfolding ips_bounded_def
    using Some b
    by (cases "get_country_from_ip geo ip_addr")
       (auto simp: log_usage_def Let_def intro!: list_all_update[OF all])
qed

lemma distinct_window:
  "distinct (xs @ ys) \<Longrightarrow> distinct (drop n xs @ ys)"
  by (auto dest: in_set_dropD)

lemma record_all_ips:
  "map_of (tokens d) tid = Some t \<Longrightarrow>
   \<forall>ev \<in> set evs. derive_token_id sha (ev_secret ev) = tid \<Longrightarrow>
   length (ip_addresses (usage_stats t)) \<le> 100 \<Longrightarrow>
   distinct (ip_addresses (usage_stats t) @ map ev_ip evs) \<Longrightarrow>
   \<exists>t'. map_of (tokens (record_all sha evs d)) tid = Some t'
       \<and> ip_addresses (usage_stats t')
           = drop (length (ip_addresses (usage_stats t) @ map ev_ip evs) - 100)
               (ip_addresses (usage_stats t) @ map ev_ip evs)"
proof (induction evs arbitrary: d t)
  case Nil
  then show ?case by simp
next
  case (Cons ev evs)
  let ?L = "ip_addresses (usage_stats t)"
  from Cons.prems have tid: "derive_token_id sha (ev_secret ev) = tid" by simp
  from Cons.prems have new: "ev_ip ev \<notin> set ?L" by auto
  from log_usage_ips[of d sha "ev_secret ev" t] Cons.prems(1) tid
  obtain t1 where t1: "map_of (tokens (record_event sha ev d)) tid = Some t1"
    and ips1: "ip_addresses (usage_stats t1) = track_ip (ev_ip ev) ?L"
    unfolding record_event_def by blast
  have w1: "ip_addresses (usage_stats t1)
      = drop (length (?L @ [ev_ip ev]) - 100) (?L @ [ev_ip ev])"
    using ips1 new Cons.prems(3) by (simp add: track_ip_window)
  then have len1: "length (ip_addresses (usage_stats t1)) \<le> 100" by simp
  from Cons.prems(4) have "distinct ((?L @ [ev_ip ev]) @ map ev_ip evs)" by simp
  then have d1: "distinct (ip_addresses (usage_stats t1) @ map ev_ip evs)"
    unfolding w1 by (rule distinct_window)
  from Cons.prems(2) have rest: "\<forall>e \<in> set evs. derive_token_id sha (ev_secret e) = tid"
    by simp
  from Cons.IH[OF t1 rest len1 d1]
  obtain t' where t': "map_of (tokens (record_all sha evs (record_event sha ev d))) tid = Some t'"
    and ips': "ip_addresses (usage_stats t')
        = drop (length (ip_addresses (usage_stats t1) @ map ev_ip evs) - 100)
            (ip_addresses (usage_stats t1) @ map ev_ip evs)"
    by blast
  have "ip_addresses (usage_stats t')
      = drop (length ((?L @ [ev_ip ev]) @ map ev_ip evs) - 100)
          ((?L @ [ev_ip ev]) @ map ev_ip evs)"
    unfolding ips' w1 by (rule window_append)
  with t' show ?case by simp
qed

text \<open>
  C5. From a store in which every token holds at most 100 distinct addresses (as every
  new token does), every \<open>log_usage\<close> call leaves such a store. On a known token the call
  keeps the list when the address is in it, appends the address when the list is shorter
  than 100, and otherwise appends it and drops the entry at index 0. Starting from an
  empty list, events of one token from distinct addresses leave the last 100 of them:
  after 101 the list has length 100 and the first address is gone.
\<close>

theorem ip_addresses_bounded:
  assumes "ips_bounded d"
  shows "ips_bounded (log_usage sha geo now_used now_logged tok mdl used ip_addr d)
       \<and> (\<forall>t. map_of (tokens d) (derive_token_id sha tok) = Some t \<longrightarrow>
            (\<exists>t'. map_of (tokens (log_usage sha geo now_used now_logged tok mdl used ip_addr d))
                     (derive_token_id sha tok) = Some t'
                 \<and> ip_addresses (usage_stats t')
                     = (if ip_addr \<in> set (ip_addresses (usage_stats t))
                        then ip_addresses (usage_stats t)
                        else if length (ip_addresses (usage_stats t)) < 100
                        then ip_addresses (usage_stats t) @ [ip_addr]
                        else tl (ip_addresses (usage_stats t) @ [ip_addr]))))
       \<and> (\<forall>tid t. map_of (tokens d) tid = Some t \<and> ip_addresses (usage_stats t) = []
              \<and> (\<forall>ev \<in> set evs. derive_token_id sha (ev_secret ev) = tid)
              \<and> distinct (map ev_ip evs) \<longrightarrow>
            (\<exists>t'. map_of (tokens (record_all sha evs d)) tid = Some t'
                 \<and> ip_addresses (usage_stats t') = drop (length evs - 100) (map ev_ip evs)
                 \<and> (length evs = 101 \<longrightarrow>
                      length (ip_addresses (usage_stats t')) = 100
                      \<and> ev_ip (hd evs) \<notin> set (ip_addresses (usage_stats t')))))"
proof (intro conjI allI impI)
  show "ips_bounded (log_usage sha geo now_used now_logged tok mdl used ip_addr d)"
    by (rule log_usage_ips_bounded[OF assms])
next
  fix t assume "map_of (tokens d) (derive_token_id sha tok) = Some t"
  from log_usage_ips[OF this, of geo now_used now_logged mdl used ip_addr]
  show "\<exists>t'. map_of (tokens (log_usage sha geo now_used now_logged tok mdl used ip_addr d))
                     (derive_token_id sha tok) = Some t'
                 \<and> ip_addresses (usage_stats t')
                     = (if ip_addr \<in> set (ip_addresses (usage_stats t))
                        then ip_addresses (usage_stats t)
                        else if length (ip_addresses (usage_stats t)) < 100
                        then ip_addresses (usage_stats t) @ [ip_addr]
                        else tl (ip_addresses (usage_stats t) @ [ip_addr]))"
    by (simp only: track_ip_cases)
next
  fix tid t
  assume a: "map_of (tokens d) tid = Some t \<and> ip_addresses (usage_stats t) = []
              \<and> (\<forall>ev \<in> set evs. derive_token_id sha (ev_secret ev) = tid)
              \<and> distinct (map ev_ip evs)"
  then have "\<exists>t'. map_of (tokens (record_all sha evs d)) tid = Some t'
       \<and> ip_addresses (usage_stats t')
           = drop (length (ip_addresses (usage_stats t) @ map ev_ip evs) - 100)
               (ip_addresses (usage_stats t) @ map ev_ip evs)"
    by (intro record_all_ips) simp_all
  then obtain t' where t': "map_of (tokens (record_all sha evs d)) tid = Some t'"
    and ips: "ip_addresses (usage_stats t') = drop (length evs - 100) (map ev_ip evs)"
    using a by auto
  have "length (ip_addresses (usage_stats t')) = 100
      \<and> ev_ip (hd evs) \<notin> set (ip_addresses (usage_stats t'))" if n: "length evs = 101"
  proof -
    from n obtain e es where evs: "evs = e # es" by (cases evs) auto
    with a have "ev_ip e \<notin> set (map ev_ip es)" by simp
    with n evs ips show ?thesis by simp
  qed
  with t' ips
  show "\<exists>t'. map_of (tokens (record_all sha evs d)) tid = Some t'
                 \<and> ip_addresses (usage_stats t') = drop (length evs - 100) (map ev_ip evs)
                 \<and> (length evs = 101 \<longrightarrow>
                      length (ip_addresses (usage_stats t')) = 100
                      \<and> ev_ip (hd evs) \<notin> set (ip_addresses (usage_stats t')))"
    by blast
qed

theorem ip_addresses_bounded_witness:
  "ips_bounded example_db
   \<and> length ip_events = 101
   \<and> distinct (map ev_ip ip_events)
   \<and> (\<exists>t'. map_of (tokens (record_all plain_digest ip_events example_db)) ''lma_beta''
              = Some t'
          \<and> length (ip_addresses (usage_stats t')) = 100
          \<and> ev_ip (hd ip_events) \<notin> set (ip_addresses (usage_stats t')))"
proof -
  let ?t = "\<lparr>key = ''lma_beta'', created_at = 5, last_used = None, is_active = True,
             user_info = [], usage_stats = fresh_stats\<rparr>"
  have h1: "ips_bounded example_db"
    by (simp add: ips_bounded_def example_db_def fresh_stats_def)
  have h2: "map_of (tokens example_db) ''lma_beta'' = Some ?t"
    and h3: "ip_addresses (usage_stats ?t) = []"
    by (simp_all add: example_db_def fresh_stats_def)
  have h4: "\<forall>ev \<in> set ip_events. derive_token_id plain_digest (ev_secret ev) = ''lma_beta''"
    by (auto simp: ip_events_def ip_event_def derive_token_id_def plain_digest_def)
  have "inj (\<lambda>i. replicate (Suc i) (CHR ''7''))"
    by (rule injI) (auto dest: arg_cong[where f = length])
  then have inj: "inj_on (\<lambda>i. replicate (Suc i) (CHR ''7'')) (set [0..<101])"
    by (rule inj_on_subset) simp
  have "map ev_ip ip_events = map (\<lambda>i. replicate (Suc i) (CHR ''7'')) [0..<101]"
    by (simp add: ip_events_def ip_event_def comp_def del: upt_rec_numeral)
  then have h5: "distinct (map ev_ip ip_events)"
    using inj by (simp add: distinct_map del: upt_rec_numeral)
  have h6: "length ip_events = 101" by (simp add: ip_events_def del: upt_rec_numeral)
  from ip_addresses_bounded[OF h1, where sha = plain_digest and evs = ip_events]
  have "\<forall>tid t. map_of (tokens example_db) tid = Some t \<and> ip_addresses (usage_stats t) = []
              \<and> (\<forall>ev \<in> set ip_events. derive_token_id plain_digest (ev_secret ev) = tid)
              \<and> distinct (map ev_ip ip_events) \<longrightarrow>
            (\<exists>t'. map_of (tokens (record_all plain_digest ip_events example_db)) tid = Some t'
                 \<and> ip_addresses (usage_stats t')
                     = drop (length ip_events - 100) (map ev_ip ip_events)
                 \<and> (length ip_events = 101 \<longrightarrow>
                      length (ip_addresses (usage_stats t')) = 100
                      \<and> ev_ip (hd ip_events) \<notin> set (ip_addresses (usage_stats t'))))"
    by blast
  from this[rule_format, of "''lma_beta''" ?t] h2 h3 h4 h5 h6
  have "\<exists>t'. map_of (tokens (record_all plain_digest ip_events example_db)) ''lma_beta''
              = Some t'
          \<and> length (ip_addresses (usage_stats t')) = 100
          \<and> ev_ip (hd ip_events) \<notin> set (ip_addresses (usage_stats t'))"
    by blast
  with h1 h5 h6 show ?thesis by blast
qed

section \<open>Timeline aggregator\<close>

lemma loop_keeps:
  "(\<not> timestamp lg < c \<and> \<not> (truthy tid \<and> Some (token_id lg) \<noteq> tid))
     = survives c (if tid = Some [] then None else tid) lg"
  by (cases tid) (auto simp: truthy_def survives_def)

lemma bucket_of_snoc_same:
  "strftime (timestamp lg) = k \<Longrightarrow>
   bucket_of strftime (kept @ [lg]) k
     = \<lparr>requests = requests (bucket_of strftime kept k) + 1,
        bucket_tokens = bucket_tokens (bucket_of strftime kept k) + log_tokens lg\<rparr>"
  by (simp add: bucket_of_def)

lemma bucket_of_snoc_other:
  "strftime (timestamp lg) \<noteq> k \<Longrightarrow>
   bucket_of strftime (kept @ [lg]) k = bucket_of strftime kept k"
  by (simp add: bucket_of_def)

lemma bucket_of_absent:
  "k \<notin> (\<lambda>lg. strftime (timestamp lg)) ` set kept \<Longrightarrow>
   bucket_of strftime kept k = \<lparr>requests = 0, bucket_tokens = 0\<rparr>"
proof -
  assume "k \<notin> (\<lambda>lg. strftime (timestamp lg)) ` set kept"
  then have "filter (\<lambda>lg. strftime (timestamp lg) = k) kept = []"
    by (auto simp: filter_empty_conv)
  then show ?thesis by (simp add: bucket_of_def)
qed

lemma timeline_inv_step:
  fixes strftime :: "datetime \<Rightarrow> string" and lg :: usage_log
    and kept :: "usage_log list" and timeline :: "(string \<times> bucket) list"
  assumes "timeline_inv strftime kept timeline"
  defines "dk \<equiv> strftime (timestamp lg)"
  defines "t1 \<equiv> (if map_of timeline dk = None
                  then AList.update dk \<lparr>requests = 0, bucket_tokens = 0\<rparr> timeline
                  else timeline)"
  shows "timeline_inv strftime (kept @ [lg])
           (AList.map_entry dk (\<lambda>b. b\<lparr>bucket_tokens := bucket_tokens b + log_tokens lg\<rparr>)
              (AList.map_entry dk (\<lambda>b. b\<lparr>requests := requests b + 1\<rparr>) t1))"
proof -
  from assms(1) have dist: "distinct (map fst timeline)"
    and look: "\<And>k. map_of timeline k
               = (if k \<in> (\<lambda>lg. strftime (timestamp lg)) ` set kept
                  then Some (bucket_of strftime kept k) else None)"
    by (simp_all add: timeline_inv_def)
  have d1: "distinct (map fst t1)"
    using dist by (simp add: t1_def distinct_update)
  have l1: "map_of t1 dk = Some (bucket_of strftime kept dk)"
    using look[of dk] by (simp add: t1_def update_conv' bucket_of_absent)
  have o1: "map_of t1 k = map_of timeline k" if "k \<noteq> dk" for k
    using that by (simp add: t1_def update_conv')
  show ?thesis
    unfolding timeline_inv_def
  proof (intro conjI allI)
    show "distinct (map fst
           (AList.map_entry dk (\<lambda>b. b\<lparr>bucket_tokens := bucket_tokens b + log_tokens lg\<rparr>)
              (AList.map_entry dk (\<lambda>b. b\<lparr>requests := requests b + 1\<rparr>) t1)))"
      by (intro distinct_map_entry d1)
  next
    fix k
    show "map_of
           (AList.map_entry dk (\<lambda>b. b\<lparr>bucket_tokens := bucket_tokens b + log_tokens lg\<rparr>)
              (AList.map_entry dk (\<lambda>b. b\<lparr>requests := requests b + 1\<rparr>) t1)) k
        = (if k \<in> (\<lambda>lg. strftime (timestamp lg)) ` set (kept @ [lg])
           then Some (bucket_of strftime (kept @ [lg]) k) else None)"
    proof (cases "k = dk")
      case True
      then show ?thesis
        using l1 by (simp add: map_of_map_entry dk_def bucket_of_snoc_same)
    next
      case False
      then have "strftime (timestamp lg) \<noteq> k" by (auto simp: dk_def)
      with False show ?thesis
        using o1[OF False] look[of k]
        by (auto simp: map_of_map_entry bucket_of_snoc_other)
    qed
  qed
qed

lemma timeline_loop_inv:
  assumes eff: "eff = (if tid = Some [] then None else tid)"
  shows "timeline_inv strftime kept timeline \<Longrightarrow>
   timeline_inv strftime (kept @ filter (survives c eff) logs)
     (timeline_loop strftime c tid logs timeline)"
proof (induction logs arbitrary: kept timeline)
  case Nil
  then show ?case by simp
next
  case (Cons lg logs)
  have keeps: "survives c eff lg
      = (\<not> timestamp lg < c \<and> \<not> (truthy tid \<and> Some (token_id lg) \<noteq> tid))"
    unfolding eff by (rule loop_keeps[symmetric])
  show ?case
  proof (cases "survives c eff lg")
    case False
    with keeps have "timestamp lg < c \<or> (truthy tid \<and> Some (token_id lg) \<noteq> tid)"
      by blast
    then have "timeline_loop strftime c tid (lg # logs) timeline
        = timeline_loop strftime c tid logs timeline"
      by auto
    with False Cons.IH[OF Cons.prems] show ?thesis by simp
  next
    case True
    with keeps have k: "\<not> timestamp lg < c" "\<not> (truthy tid \<and> Some (token_id lg) \<noteq> tid)"
      by blast+
    let ?t3 = "AList.map_entry (strftime (timestamp lg))
               (\<lambda>b. b\<lparr>bucket_tokens := bucket_tokens b + log_tokens lg\<rparr>)
               (AList.map_entry (strftime (timestamp lg)) (\<lambda>b. b\<lparr>requests := requests b + 1\<rparr>)
                  (if map_of timeline (strftime (timestamp lg)) = None
                   then AList.update (strftime (timestamp lg))
                          \<lparr>requests = 0, bucket_tokens = 0\<rparr> timeline
                   else timeline))"
    have step: "timeline_loop strftime c tid (lg # logs) timeline
        = timeline_loop strftime c tid logs ?t3"
      using k by (auto simp: Let_def)
    have "timeline_inv strftime (kept @ [lg]) ?t3"
      by (rule timeline_inv_step[OF Cons.prems])
    then have "timeline_inv strftime ((kept @ [lg]) @ filter (survives c eff) logs)
          (timeline_loop strftime c tid logs ?t3)"
      by (rule Cons.IH)
    with True show ?thesis unfolding step by simp
  qed
qed

lemma timeline_inv_empty: "timeline_inv strftime [] []"
  by (simp add: timeline_inv_def)

lemma timeline_inv_set:
  assumes "timeline_inv strftime kept timeline"
  shows "set timeline
       = (\<lambda>k. (k, bucket_of strftime kept k)) ` (\<lambda>lg. strftime (timestamp lg)) ` set kept"
proof -
  from assms have dist: "distinct (map fst timeline)"
    and look: "\<And>k. map_of timeline k
               = (if k \<in> (\<lambda>lg. strftime (timestamp lg)) ` set kept
                  then Some (bucket_of strftime kept k) else None)"
    by (simp_all add: timeline_inv_def)
  have "p \<in> set timeline \<longleftrightarrow>
        p \<in> (\<lambda>k. (k, bucket_of strftime kept k)) ` (\<lambda>lg. strftime (timestamp lg)) ` set kept"
    for p
  proof -
    obtain k b where p: "p = (k, b)" by (cases p)
    have "(k, b) \<in> set timeline \<longleftrightarrow> map_of timeline k = Some b"
      using dist by simp
    then show ?thesis unfolding p look by auto
  qed
  then show ?thesis by blast
qed

lemma sorted_items:
  assumes "timeline_inv strftime kept timeline"
  shows "sort_key fst timeline
       = map (\<lambda>k. (k, bucket_of strftime kept k))
           (sort (remdups (map (\<lambda>lg. strftime (timestamp lg)) kept)))"
proof (rule map_sorted_distinct_set_unique[where f = fst])
  let ?ys = "map (\<lambda>k. (k, bucket_of strftime kept k))
           (sort (remdups (map (\<lambda>lg. strftime (timestamp lg)) kept)))"
  from assms have dist: "distinct (map fst timeline)" by (simp add: timeline_inv_def)
  have fst_ys: "map fst ?ys = sort (remdups (map (\<lambda>lg. strftime (timestamp lg)) kept))"
    by (simp add: comp_def)
  show sets: "set (sort_key fst timeline) = set ?ys"
    by (simp add: timeline_inv_set[OF assms])
  from dist have "inj_on fst (set timeline)" by (simp add: distinct_map)
  with sets show "inj_on fst (set (sort_key fst timeline) \<union> set ?ys)" by simp
  show "sorted (map fst (sort_key fst timeline))" by simp
  from dist show "distinct (map fst (sort_key fst timeline))" by (simp add: distinct_map)
  show "sorted (map fst ?ys)" unfolding fst_ys by simp
  show "distinct (map fst ?ys)" unfolding fst_ys by simp
qed

lemma timeline_rebucket:
  "timeline_points (timeline_loop strftime c tid logs [])
     = rebucket strftime c (if tid = Some [] then None else tid) logs"
proof -
  let ?kept = "filter (survives c (if tid = Some [] then None else tid)) logs"
  have "timeline_inv strftime ([] @ ?kept) (timeline_loop strftime c tid logs [])"
    by (rule timeline_loop_inv[OF refl timeline_inv_empty])
  then have "timeline_inv strftime ?kept (timeline_loop strftime c tid logs [])"
    by simp
  from sorted_items[OF this] show ?thesis
    by (simp add: timeline_points_def rebucket_def Let_def bucket_of_def comp_def)
qed

lemma usage_timeline_in_range:
  assumes "cutoff_representable now days"
  shows "get_usage_timeline strftime now tid days d
       = Inr (timeline_points
                (timeline_loop strftime (now - days * 86400000000) tid (usage_logs d) []))"
proof -
  from assms have "timedelta_days days = Inr (days * 86400000000)"
    by (auto simp: cutoff_representable_def timedelta_days_def)
  moreover from assms
  have "datetime_minus now (days * 86400000000) = Inr (now - days * 86400000000)"
    by (auto simp: cutoff_representable_def datetime_minus_def)
  ultimately show ?thesis by (simp add: get_usage_timeline_def)
qed

lemma usage_timeline_out_of_range:
  assumes "\<not> cutoff_representable now days"
  shows "get_usage_timeline strftime now tid days d = Inl OverflowError"
proof (cases "\<bar>days\<bar> > 999999999")
  case True
  then show ?thesis by (simp add: get_usage_timeline_def timedelta_days_def)
next
  case False
  then have "timedelta_days days = Inr (days * 86400000000)"
    by (simp add: timedelta_days_def)
  moreover from False assms
  have "datetime_minus now (days * 86400000000) = Inl OverflowError"
    by (auto simp: cutoff_representable_def datetime_minus_def)
  ultimately show ?thesis by (simp add: get_usage_timeline_def)
qed

lemma rebucket_dates:
  "map date (rebucket strftime c tid logs)
     = sort (remdups (map (\<lambda>lg. strftime (timestamp lg)) (filter (survives c tid) logs)))"
  by (simp add: rebucket_def Let_def comp_def)

lemma rebucket_nonempty:
  assumes "p \<in> set (rebucket strftime c tid logs)"
  shows "1 \<le> point_requests p"
proof -
  let ?kept = "filter (survives c tid) logs"
  from assms obtain k
    where "k \<in> set (sort (remdups (map (\<lambda>lg. strftime (timestamp lg)) ?kept)))"
      and "p = \<lparr>date = k,
                 point_requests =
                   int (length (filter (\<lambda>lg. strftime (timestamp lg) = k) ?kept)),
                 point_tokens =
                   sum_list (map log_tokens
                     (filter (\<lambda>lg. strftime (timestamp lg) = k) ?kept))\<rparr>"
    unfolding rebucket_def Let_def set_map by blast
  then have k: "k \<in> (\<lambda>lg. strftime (timestamp lg)) ` set ?kept"
    and p: "point_requests p
        = int (length (filter (\<lambda>lg. strftime (timestamp lg) = k) ?kept))"
    by simp_all
  from k have "filter (\<lambda>lg. strftime (timestamp lg) = k) ?kept \<noteq> []"
    by (auto simp: filter_empty_conv)
  then have "0 < length (filter (\<lambda>lg. strftime (timestamp lg) = k) ?kept)"
    by (rule iffD2[OF length_greater_0_conv])
  then have "1 \<le> int (length (filter (\<lambda>lg. strftime (timestamp lg) = k) ?kept))"
    by linarith
  then show ?thesis by (simp only: p)
qed

lemma example_dates:
  "strftime_ymd 1708250400000000 = ''2024-02-18''"
  "strftime_ymd 1709200800000000 = ''2024-02-29''"
  "strftime_ymd 1709204400000000 = ''2024-02-29''"
  "strftime_ymd 1709254800000000 = ''2024-03-01''"
  by code_simp+

text \<open>
  C4, as the claim states it, fails: for \<open>days = 1000000\<close>, which the timeline endpoint
  accepts, the cutoff would lie before the year 1, the subtraction raises \<open>OverflowError\<close>
  and the call returns no timeline at all.
\<close>

theorem usage_timeline_counterexample:
  "get_usage_timeline strftime_ymd timeline_now None 1000000 timeline_db = Inl OverflowError
   \<and> get_usage_timeline strftime_ymd timeline_now None 1000000 timeline_db
       \<noteq> Inr (rebucket strftime_ymd (timeline_now - 1000000 * 86400000000) None
                (usage_logs timeline_db))"
  by (simp add: get_usage_timeline_def timedelta_days_def datetime_minus_def datetime_min_def
        timeline_now_def)

text \<open>
  C4, amended. For a token id that is \<open>None\<close> or a token id (which is never the empty
  string) and for \<open>days\<close> whose cutoff \<open>now - days\<close> is representable,
  \<open>get_usage_timeline\<close> returns the reference re-bucketing of the log: it keeps the
  entries that are not older than the cutoff and, when a token id is supplied, carry that
  id; it gives one point per calendar date among them, with the number of its entries and
  the sum of their tokens; the dates are in ascending order, each once, and no point has
  zero requests. When the cutoff is not representable the call raises \<open>OverflowError\<close>.
\<close>

theorem usage_timeline_rebuckets:
  assumes "tid \<noteq> Some []"
  shows "(cutoff_representable now days \<longrightarrow>
            get_usage_timeline strftime now tid days d
              = Inr (rebucket strftime (now - days * 86400000000) tid (usage_logs d))
            \<and> sorted (map date
                  (rebucket strftime (now - days * 86400000000) tid (usage_logs d)))
            \<and> distinct (map date
                  (rebucket strftime (now - days * 86400000000) tid (usage_logs d)))
            \<and> (\<forall>p \<in> set (rebucket strftime (now - days * 86400000000) tid (usage_logs d)).
                  1 \<le> point_requests p))
       \<and> (\<not> cutoff_representable now days \<longrightarrow>
            get_usage_timeline strftime now tid days d = Inl OverflowError)"
proof (intro conjI impI ballI)
  assume "cutoff_representable now days"
  then show "get_usage_timeline strftime now tid days d
      = Inr (rebucket strftime (now - days * 86400000000) tid (usage_logs d))"
    using assms by (simp add: usage_timeline_in_range timeline_rebucket)
next
  show "sorted (map date (rebucket strftime (now - days * 86400000000) tid (usage_logs d)))"
    unfolding rebucket_dates by (rule sorted_sort)
next
  show "distinct (map date (rebucket strftime (now - days * 86400000000) tid (usage_logs d)))"
    unfolding rebucket_dates by (simp only: distinct_sort distinct_remdups)
next
  fix p assume "p \<in> set (rebucket strftime (now - days * 86400000000) tid (usage_logs d))"
  then show "1 \<le> point_requests p" by (rule rebucket_nonempty)
next
  assume "\<not> cutoff_representable now days"
  then show "get_usage_timeline strftime now tid days d = Inl OverflowError"
    by (rule usage_timeline_out_of_range)
qed

theorem usage_timeline_rebuckets_witness:
  "Some ''lma_beta'' \<noteq> Some []
   \<and> cutoff_representable timeline_now 7
   \<and> get_usage_timeline strftime_ymd timeline_now (Some ''lma_beta'') 7 timeline_db
     = Inr [\<lparr>date = ''2024-02-29'', point_requests = 1, point_tokens = 10\<rparr>,
            \<lparr>date = ''2024-03-01'', point_requests = 1, point_tokens = 7\<rparr>]
   \<and> get_usage_timeline strftime_ymd timeline_now None 7 timeline_db
     = Inr [\<lparr>date = ''2024-02-29'', point_requests = 2, point_tokens = 15\<rparr>,
            \<lparr>date = ''2024-03-01'', point_requests = 1, point_tokens = 7\<rparr>]
   \<and> \<not> cutoff_representable timeline_now 1000000
   \<and> get_usage_timeline strftime_ymd timeline_now (Some ''lma_beta'') 1000000 timeline_db
     = Inl OverflowError"
proof -
  have t: "Some ''lma_beta'' \<noteq> Some []" and n: "(None :: string option) \<noteq> Some []"
    by simp_all
  have r: "cutoff_representable timeline_now 7"
    and o: "\<not> cutoff_representable timeline_now 1000000"
    by (simp_all add: cutoff_representable_def timeline_now_def datetime_min_def
          datetime_max_def)
  from usage_timeline_rebuckets[OF t, of timeline_now 7 strftime_ymd timeline_db]
    usage_timeline_rebuckets[OF n, of timeline_now 7 strftime_ymd timeline_db]
    usage_timeline_rebuckets[OF t, of timeline_now 1000000 strftime_ymd timeline_db] r o
  show ?thesis
    by (simp add: rebucket_def survives_def timeline_db_def timeline_now_def example_dates
          Let_def)
qed

end
